theory Spec2Isabelle
  imports Main "HOL-Library.Word"
begin

section \<open>Data model\<close>

text \<open>
  The program is one Python script (\<^verbatim>\<open>deep.py\<close>) that a web framework re-runs from top
  to bottom on every user interaction. What survives between runs is the session state:
  \<^verbatim>\<open>st.session_state.dots\<close>, the pending points, and \<^verbatim>\<open>st.session_state.entries\<close>, the
  saved entries. Each button handler is embedded as a function on that state.

  A point is a pair of integer pixel coordinates; an entry is the tuple
  \<^verbatim>\<open>(date, label, img_bytes, dot_size)\<close> that the save handler appends.
\<close>

type_synonym point = "int \<times> int"
type_synonym box = "int \<times> int \<times> int \<times> int"
type_synonym byte = "8 word"
type_synonym rgba = "byte \<times> byte \<times> byte \<times> byte"
type_synonym entry = "string \<times> string \<times> byte list \<times> int"

text \<open>
  An image of the imaging library in mode RGBA: its size and the colour of every pixel.
  Only the pixels with \<open>0 \<le> x < width\<close> and \<open>0 \<le> y < height\<close> belong to the raster.
\<close>

record image =
  width :: int
  height :: int
  pixel :: "point \<Rightarrow> rgba"

definition in_bounds :: "image \<Rightarrow> point \<Rightarrow> bool" where
  "in_bounds img p = (0 \<le> fst p \<and> fst p < width img \<and> 0 \<le> snd p \<and> snd p < height img)"

definition white :: rgba where "white = (255, 255, 255, 255)"
definition red :: rgba where "red = (255, 0, 0, 255)"
definition blue :: rgba where "blue = (0, 0, 255, 255)"

text \<open>\<^verbatim>\<open>Image.new("RGBA", (w, h), colour)\<close>: a canvas of one colour.\<close>

definition image_new :: "int \<Rightarrow> int \<Rightarrow> rgba \<Rightarrow> image" where
  "image_new w h c = \<lparr>width = w, height = h, pixel = (\<lambda>_. c)\<rparr>"

text \<open>The exceptions the script can raise, and the messages it shows to the user.\<close>

datatype py_error = AttributeError | IndexError | ValueError

datatype notice = Error string | Warning string | Success string

text \<open>
  Images are mutable objects: \<^verbatim>\<open>ImageDraw.Draw(img)\<close> paints into \<^verbatim>\<open>img\<close> itself, and
  \<^verbatim>\<open>base_image.copy()\<close> makes a new object. The state therefore holds a store of image
  objects, addressed by position; the global \<^verbatim>\<open>base_image\<close> is an address, or \<open>None\<close> where
  the Python global is \<^verbatim>\<open>None\<close>. The two session lists are held by value.
\<close>

record app_state =
  images :: "image list"
  base_image :: "nat option"
  dots :: "point list"
  entries :: "entry list"

section \<open>Strings\<close>

text \<open>
  \<^verbatim>\<open>str.lower\<close>, \<^verbatim>\<open>str.endswith\<close> and the substring test \<^verbatim>\<open>in\<close>, on ASCII file names
  (a \<open>char\<close> is a byte; letters outside ASCII are left as they are).
\<close>

definition lower_char :: "char \<Rightarrow> char" where
  "lower_char c =
     (let n = (of_char c :: nat) in if 65 \<le> n \<and> n \<le> 90 then char_of (n + 32) else c)"

definition lower :: "string \<Rightarrow> string" where
  "lower s = map lower_char s"

fun startswith :: "string \<Rightarrow> string \<Rightarrow> bool" where
  "startswith s [] = True"
| "startswith [] (p # ps) = False"
| "startswith (c # cs) (p # ps) = (c = p \<and> startswith cs ps)"

definition endswith :: "string \<Rightarrow> string \<Rightarrow> bool" where
  "endswith s suf = startswith (rev s) (rev suf)"

fun contains :: "string \<Rightarrow> string \<Rightarrow> bool" where
  "contains sub [] = (sub = [])"
| "contains sub (c # cs) = (startswith (c # cs) sub \<or> contains sub cs)"

section \<open>Image Loader\<close>

text \<open>
  \<^verbatim>\<open>load_body_image\<close> reads the directory listing (\<^verbatim>\<open>os.listdir()\<close>) and opens the first
  candidate (\<^verbatim>\<open>Image.open(f).convert("RGBA")\<close>). Both belong to the environment and are
  parameters: \<open>listing\<close> is the list of file names, and \<open>open_rgba f\<close> is either the decoded
  image or the text of the exception raised while opening \<open>f\<close>. The function returns the
  messages it showed and its return value; \<open>None\<close> is Python's \<^verbatim>\<open>None\<close>, which is what a
  function returns when it falls off its end, as this one does after the \<^verbatim>\<open>except\<close> branch.
\<close>

definition image_files :: "string list \<Rightarrow> string list" where
  "image_files listing =
     filter (\<lambda>f. endswith (lower f) ''.jpg'' \<or> endswith (lower f) ''.jpeg''
                  \<or> endswith (lower f) ''.png'') listing"

definition body_images :: "string list \<Rightarrow> string list" where
  "body_images listing =
     filter (\<lambda>f. contains ''human'' (lower f) \<or> contains ''body'' (lower f))
       (image_files listing)"

definition load_body_image ::
  "string list \<Rightarrow> (string \<Rightarrow> string + image) \<Rightarrow> notice list \<times> image option" where
  "load_body_image listing open_rgba =
     (if body_images listing \<noteq> [] then
        (case open_rgba (hd (body_images listing)) of
           Inr img \<Rightarrow> ([], Some img)
         | Inl e \<Rightarrow>
             ([Error (''Error loading image '' @ [CHR 0x27] @ hd (body_images listing)
                      @ [CHR 0x27] @ '': '' @ e)], None))
      else
        ([Warning ''No body outline image found. Using a blank placeholder.''],
         Some (image_new 500 800 white)))"

text \<open>
  The script then reads \<^verbatim>\<open>base_image.width\<close> (\<^verbatim>\<open>if base_image.width > 0:\<close>, the first
  statement after the sidebar that touches the image). On \<^verbatim>\<open>None\<close> the attribute access
  raises.
\<close>

definition has_positive_width :: "image option \<Rightarrow> py_error + bool" where
  "has_positive_width b =
     (case b of None \<Rightarrow> Inl AttributeError | Some img \<Rightarrow> Inr (0 < width img))"

section \<open>Renderer\<close>

text \<open>
  \<^verbatim>\<open>draw.ellipse(box, fill=c)\<close> belongs to the imaging library. Which pixels of the box a
  filled ellipse covers is the library's rasterisation; it is the parameter \<open>ell\<close> of the
  model (\<open>ell box p\<close>: the ellipse drawn in \<open>box\<close> covers pixel \<open>p\<close>). Covered pixels inside
  the raster take the fill colour, every other pixel keeps its colour. The library refuses
  a box whose second corner lies before its first.
\<close>

definition in_box :: "box \<Rightarrow> point \<Rightarrow> bool" where
  "in_box bx p =
     (case bx of (x0, y0, x1, y1) \<Rightarrow> x0 \<le> fst p \<and> fst p \<le> x1 \<and> y0 \<le> snd p \<and> snd p \<le> y1)"

text \<open>The box of the dot at \<open>p\<close>: \<^verbatim>\<open>(x - r, y - r, x + r, y + r)\<close>.\<close>

definition dot_box :: "int \<Rightarrow> point \<Rightarrow> box" where
  "dot_box r p = (fst p - r, snd p - r, fst p + r, snd p + r)"

definition draw_ellipse :: "(box \<Rightarrow> point \<Rightarrow> bool) \<Rightarrow> box \<Rightarrow> rgba \<Rightarrow> image \<Rightarrow> image" where
  "draw_ellipse ell bx fill img =
     img\<lparr>pixel := (\<lambda>p. if in_bounds img p \<and> ell bx p then fill else pixel img p)\<rparr>"

definition ellipse ::
  "(box \<Rightarrow> point \<Rightarrow> bool) \<Rightarrow> nat \<Rightarrow> box \<Rightarrow> rgba \<Rightarrow> app_state \<Rightarrow> py_error + app_state" where
  "ellipse ell a bx fill st =
     (case bx of (x0, y0, x1, y1) \<Rightarrow>
        if x1 < x0 \<or> y1 < y0 then Inl ValueError
        else Inr (st\<lparr>images := (images st)[a := draw_ellipse ell bx fill (images st ! a)]\<rparr>))"

text \<open>\<^verbatim>\<open>base_image.copy()\<close>: a new image object with the same contents, at a fresh address.\<close>

definition image_copy :: "nat \<Rightarrow> app_state \<Rightarrow> nat \<times> app_state" where
  "image_copy a st = (length (images st), st\<lparr>images := images st @ [images st ! a]\<rparr>)"

text \<open>The loop \<^verbatim>\<open>for x, y in dots: draw.ellipse((x - r, y - r, x + r, y + r), fill="red")\<close>.\<close>

fun draw_dots ::
  "(box \<Rightarrow> point \<Rightarrow> bool) \<Rightarrow> nat \<Rightarrow> int \<Rightarrow> point list \<Rightarrow> app_state \<Rightarrow> py_error + app_state" where
  "draw_dots ell img r [] st = Inr st"
| "draw_dots ell img r ((x, y) # ds) st =
     (case ellipse ell img (x - r, y - r, x + r, y + r) red st of
        Inl e \<Rightarrow> Inl e
      | Inr st' \<Rightarrow> draw_dots ell img r ds st')"

text \<open>
  \<^verbatim>\<open>get_image_with_dots(dots, current_dot, dot_size)\<close>. It reads the global \<^verbatim>\<open>base_image\<close>;
  \<^verbatim>\<open>r = dot_size // 2\<close> is floor division; \<^verbatim>\<open>if current_dot:\<close> holds for every tuple and
  fails for \<^verbatim>\<open>None\<close>. The body only iterates over the list it is given, here \<open>ds\<close>, and
  assigns to neither session list. The result is the address of the new image and the
  state after it.
\<close>

definition get_image_with_dots ::
  "(box \<Rightarrow> point \<Rightarrow> bool) \<Rightarrow> point list \<Rightarrow> point option \<Rightarrow> int \<Rightarrow> app_state
     \<Rightarrow> py_error + (nat \<times> app_state)" where
  "get_image_with_dots ell ds current_dot dot_size st =
     (case base_image st of
        None \<Rightarrow> Inl AttributeError
      | Some b \<Rightarrow>
          (case image_copy b st of (img, st1) \<Rightarrow>
             let r = dot_size div 2 in
             (case draw_dots ell img r ds st1 of
                Inl e \<Rightarrow> Inl e
              | Inr st2 \<Rightarrow>
                  (case current_dot of
                     None \<Rightarrow> Inr (img, st2)
                   | Some (cx, cy) \<Rightarrow>
                       (case ellipse ell img (cx - r, cy - r, cx + r, cy + r) blue st2 of
                          Inl e \<Rightarrow> Inl e
                        | Inr st3 \<Rightarrow> Inr (img, st3))))))"

text \<open>
  The contents of the image that rendering leaves at the new address, as a function of the
  contents of the base image: the red dots in list order, then the blue preview dot.
\<close>

definition paint :: "(box \<Rightarrow> point \<Rightarrow> bool) \<Rightarrow> int \<Rightarrow> point list \<Rightarrow> image \<Rightarrow> image" where
  "paint ell r ds img =
     fold (\<lambda>(x, y). draw_ellipse ell (x - r, y - r, x + r, y + r) red) ds img"

definition composite ::
  "(box \<Rightarrow> point \<Rightarrow> bool) \<Rightarrow> point list \<Rightarrow> point option \<Rightarrow> int \<Rightarrow> image \<Rightarrow> image" where
  "composite ell ds current_dot dot_size base =
     (let r = dot_size div 2; im = paint ell r ds base
      in case current_dot of
           None \<Rightarrow> im
         | Some (cx, cy) \<Rightarrow> draw_ellipse ell (cx - r, cy - r, cx + r, cy + r) blue im)"

section \<open>Marker Store\<close>

text \<open>
  The session state starts with both lists empty (\<^verbatim>\<open>if "dots" not in st.session_state\<close>
  and the same for \<^verbatim>\<open>entries\<close>); the store holds the loaded base image, if there is one.
\<close>

definition start_session :: "image option \<Rightarrow> app_state" where
  "start_session loaded =
     (case loaded of
        None \<Rightarrow> \<lparr>images = [], base_image = None, dots = [], entries = []\<rparr>
      | Some img \<Rightarrow> \<lparr>images = [img], base_image = Some 0, dots = [], entries = []\<rparr>)"

text \<open>
  Every later run of the script executes \<^verbatim>\<open>base_image = load_body_image()\<close> again: the
  global is bound to what the loader returns now, a new image object or \<^verbatim>\<open>None\<close>, while
  the session lists stay as they are.
\<close>

definition reload_base_image :: "image option \<Rightarrow> app_state \<Rightarrow> app_state" where
  "reload_base_image loaded st =
     (case loaded of
        None \<Rightarrow> st\<lparr>base_image := None\<rparr>
      | Some img \<Rightarrow> st\<lparr>images := images st @ [img], base_image := Some (length (images st))\<rparr>)"

text \<open>Add Dot: \<^verbatim>\<open>st.session_state.dots.append((x, y))\<close>.\<close>

definition add_dot :: "int \<Rightarrow> int \<Rightarrow> app_state \<Rightarrow> app_state" where
  "add_dot x y st = st\<lparr>dots := dots st @ [(x, y)]\<rparr>"

text \<open>Undo Last Dot: \<^verbatim>\<open>if st.session_state.dots: st.session_state.dots.pop()\<close>.\<close>

definition undo_last_dot :: "app_state \<Rightarrow> app_state" where
  "undo_last_dot st = (if dots st \<noteq> [] then st\<lparr>dots := butlast (dots st)\<rparr> else st)"

text \<open>Clear All Dots: \<^verbatim>\<open>st.session_state.dots.clear()\<close>.\<close>

definition clear_all_dots :: "app_state \<Rightarrow> app_state" where
  "clear_all_dots st = st\<lparr>dots := []\<rparr>"

text \<open>
  Save Entry. \<open>date\<close> is the clock reading \<^verbatim>\<open>datetime.now().strftime("%Y-%m-%d %H:%M:%S")\<close>
  and \<open>png\<close> the library's PNG encoder (\<^verbatim>\<open>entry_image.save(img_io, format="PNG")\<close> followed by
  \<^verbatim>\<open>img_io.getvalue()\<close>); \<open>label\<close> and \<open>dot_size\<close> are the values of the two sidebar
  widgets. A string is true in a condition when it is not empty, a list likewise.
\<close>

definition save_entry ::
  "(box \<Rightarrow> point \<Rightarrow> bool) \<Rightarrow> (image \<Rightarrow> byte list) \<Rightarrow> string \<Rightarrow> string \<Rightarrow> int \<Rightarrow> app_state
     \<Rightarrow> py_error + (notice \<times> app_state)" where
  "save_entry ell png date label dot_size st =
     (if label \<noteq> [] \<and> dots st \<noteq> [] then
        (case get_image_with_dots ell (dots st) None dot_size st of
           Inl e \<Rightarrow> Inl e
         | Inr (entry_image, st1) \<Rightarrow>
             let img_bytes = png (images st1 ! entry_image) in
             Inr (Success ''Entry saved.'',
                  st1\<lparr>entries := entries st1 @ [(date, label, img_bytes, dot_size)],
                      dots := []\<rparr>))
      else Inr (Warning ''Please add at least one dot and a label.'', st))"

text \<open>
  \<^verbatim>\<open>list.pop(i)\<close>: a negative index counts from the end, an index out of range raises
  \<^verbatim>\<open>IndexError\<close>. The result is the removed element and the remaining list.
\<close>

definition list_pop :: "'a list \<Rightarrow> int \<Rightarrow> py_error + ('a \<times> 'a list)" where
  "list_pop xs i =
     (let n = int (length xs); j = (if i < 0 then i + n else i)
      in if 0 \<le> j \<and> j < n then Inr (xs ! nat j, take (nat j) xs @ drop (Suc (nat j)) xs)
         else Inl IndexError)"

text \<open>Delete (the button of entry \<open>i\<close>): \<^verbatim>\<open>st.session_state.entries.pop(i)\<close>.\<close>

definition delete_entry :: "int \<Rightarrow> app_state \<Rightarrow> py_error + app_state" where
  "delete_entry i st =
     (case list_pop (entries st) i of
        Inl e \<Rightarrow> Inl e
      | Inr (_, rest) \<Rightarrow> Inr (st\<lparr>entries := rest\<rparr>))"

text \<open>
  The five operations of the store, and a session as a sequence of them. An operation
  that raises ends that run of the script; the session state stays as it was, since each
  handler raises before its first assignment, and the session goes on.
\<close>

datatype operation =
    AddPendingPoint int int
  | UndoLastPoint
  | ClearPending
  | SaveEntry string string int
  | DeleteEntry int

fun apply_operation ::
  "(box \<Rightarrow> point \<Rightarrow> bool) \<Rightarrow> (image \<Rightarrow> byte list) \<Rightarrow> operation \<Rightarrow> app_state
     \<Rightarrow> py_error + app_state" where
  "apply_operation ell png (AddPendingPoint x y) st = Inr (add_dot x y st)"
| "apply_operation ell png UndoLastPoint st = Inr (undo_last_dot st)"
| "apply_operation ell png ClearPending st = Inr (clear_all_dots st)"
| "apply_operation ell png (SaveEntry date label dot_size) st =
     (case save_entry ell png date label dot_size st of
        Inl e \<Rightarrow> Inl e
      | Inr (_, st') \<Rightarrow> Inr st')"
| "apply_operation ell png (DeleteEntry i) st = delete_entry i st"

definition perform ::
  "(box \<Rightarrow> point \<Rightarrow> bool) \<Rightarrow> (image \<Rightarrow> byte list) \<Rightarrow> operation \<Rightarrow> app_state \<Rightarrow> app_state" where
  "perform ell png op st = (case apply_operation ell png op st of Inl _ \<Rightarrow> st | Inr st' \<Rightarrow> st')"

definition run_operations ::
  "(box \<Rightarrow> point \<Rightarrow> bool) \<Rightarrow> (image \<Rightarrow> byte list) \<Rightarrow> operation list \<Rightarrow> app_state \<Rightarrow> app_state" where
  "run_operations ell png ops st = fold (perform ell png) ops st"

section \<open>Entry Exporter\<close>

text \<open>
  Prepare CSV: the rows handed to \<^verbatim>\<open>writer.writerow\<close>, in the order of the calls. A cell
  is a string or an integer (the dot size is written as the integer it is); the image
  bytes of an entry are skipped (\<^verbatim>\<open>for date, label, _, size in ...\<close>).
\<close>

datatype cell = Text string | Number int

definition writerow :: "cell list \<Rightarrow> cell list list \<Rightarrow> cell list list" where
  "writerow row written = written @ [row]"

definition prepare_csv :: "entry list \<Rightarrow> cell list list" where
  "prepare_csv es =
     fold (\<lambda>(date, label, _, size). writerow [Text date, Text label, Number size]) es
       (writerow [Text ''Date'', Text ''Label'', Text ''Dot Size''] [])"

section \<open>A worked session\<close>

text \<open>
  Concrete data on which the theorems below are evaluated: the blank placeholder canvas,
  the session of the example "add points (10,10) and (20,20), dot size 6, save as Scar",
  a rasteriser that covers the pixels of the ellipse inscribed in the box, and a stand-in
  encoder that writes only the eight bytes of the PNG signature.
\<close>

definition inscribed_ellipse :: "box \<Rightarrow> point \<Rightarrow> bool" where
  "inscribed_ellipse bx p =
     (case bx of (x0, y0, x1, y1) \<Rightarrow>
        in_box bx p \<and>
        (2 * fst p - x0 - x1)\<^sup>2 * (y1 - y0)\<^sup>2 + (2 * snd p - y0 - y1)\<^sup>2 * (x1 - x0)\<^sup>2
          \<le> (x1 - x0)\<^sup>2 * (y1 - y0)\<^sup>2)"

definition png_signature :: "image \<Rightarrow> byte list" where
  "png_signature img = [137, 80, 78, 71, 13, 10, 26, 10]"

definition blank_session :: app_state where
  "blank_session = start_session (Some (image_new 500 800 white))"

definition scar_session :: app_state where
  "scar_session = add_dot 20 20 (add_dot 10 10 blank_session)"

definition gallery_session :: app_state where
  "gallery_session =
     scar_session\<lparr>entries :=
       [(''2024-05-01 09:30:00'', ''Scar'', [137, 80, 78, 71, 13, 10, 26, 10], 6),
        (''2024-05-01 09:31:00'', ''Bruise'', [137, 80, 78, 71, 13, 10, 26, 10], 10),
        (''2024-05-01 09:32:00'', ''Mole'', [137, 80, 78, 71, 13, 10, 26, 10], 2)]\<rparr>"

text \<open>An opener for which every file fails to decode.\<close>

definition unreadable :: "string \<Rightarrow> string + image" where
  "unreadable f = Inl ''cannot identify image file''"

text \<open>
  The worked session after a run in which the only candidate file no longer decodes.
\<close>

definition corrupted_session :: app_state where
  "corrupted_session =
     reload_base_image (snd (load_body_image [''notes.txt'', ''Body.PNG''] unreadable))
       scar_session"

text \<open>
  A stand-in encoder that depends on the image: the PNG signature followed by the colours
  of the pixels \<open>(10, 10)\<close> and \<open>(14, 10)\<close>.
\<close>

definition probe_png :: "image \<Rightarrow> byte list" where
  "probe_png img =
     [137, 80, 78, 71, 13, 10, 26, 10]
       @ (case pixel img (10, 10) of (r, g, b, a) \<Rightarrow> [r, g, b, a])
       @ (case pixel img (14, 10) of (r, g, b, a) \<Rightarrow> [r, g, b, a])"

text \<open>The colour of one pixel of a rendered image, where rendering returned one.\<close>

definition rendered_pixel :: "py_error + (nat \<times> app_state) \<Rightarrow> point \<Rightarrow> py_error + rgba" where
  "rendered_pixel res p =
     (case res of Inl e \<Rightarrow> Inl e | Inr (img, st) \<Rightarrow> Inr (pixel (images st ! img) p))"

section \<open>What rendering computes\<close>

text \<open>
  Drawing succeeds whenever the box is not inverted, which is the case for every dot size
  that is not negative; the state after the loop differs from the state before it only
  in the image being drawn on.
\<close>

lemma ellipse_ok:
  "x0 \<le> x1 \<Longrightarrow> y0 \<le> y1 \<Longrightarrow>
   ellipse ell a (x0, y0, x1, y1) c st =
     Inr (st\<lparr>images := (images st)[a := draw_ellipse ell (x0, y0, x1, y1) c (images st ! a)]\<rparr>)"
  by (simp add: ellipse_def)

lemma draw_dots_ok:
  "0 \<le> r \<Longrightarrow> a < length (images st) \<Longrightarrow>
   draw_dots ell a r ds st = Inr (st\<lparr>images := (images st)[a := paint ell r ds (images st ! a)]\<rparr>)"
proof (induction ds arbitrary: st)
  case Nil
  then show ?case by (simp add: paint_def)
next
  case (Cons p ds)
  obtain x y where p: "p = (x, y)" by (cases p)
  let ?st1 = "st\<lparr>images := (images st)[a := draw_ellipse ell (x - r, y - r, x + r, y + r) red (images st ! a)]\<rparr>"
  have e: "ellipse ell a (x - r, y - r, x + r, y + r) red st = Inr ?st1"
    using Cons.prems by (simp add: ellipse_ok)
  have "draw_dots ell a r ds ?st1 = Inr (?st1\<lparr>images := (images ?st1)[a := paint ell r ds (images ?st1 ! a)]\<rparr>)"
    using Cons.prems by (intro Cons.IH) simp_all
  then show ?case using Cons.prems by (simp add: p e paint_def)
qed

lemma get_image_with_dots_result:
  assumes "base_image st = Some b" and "0 \<le> dot_size"
  shows "get_image_with_dots ell ds current_dot dot_size st =
           Inr (length (images st),
                st\<lparr>images := images st @ [composite ell ds current_dot dot_size (images st ! b)]\<rparr>)"
proof -
  let ?r = "dot_size div 2"
  let ?n = "length (images st)"
  let ?st1 = "st\<lparr>images := images st @ [images st ! b]\<rparr>"
  have r: "0 \<le> ?r" using assms(2) by simp
  have d: "draw_dots ell ?n ?r ds ?st1 =
             Inr (st\<lparr>images := images st @ [paint ell ?r ds (images st ! b)]\<rparr>)"
    using r by (simp add: draw_dots_ok)
  show ?thesis
  proof (cases current_dot)
    case None
    then show ?thesis using assms(1) d
      by (simp add: get_image_with_dots_def image_copy_def composite_def)
  next
    case (Some c)
    obtain cx cy where c: "c = (cx, cy)" by (cases c)
    show ?thesis using assms(1) d r
      by (simp add: get_image_with_dots_def image_copy_def composite_def Some c ellipse_ok Let_def)
  qed
qed

lemma paint_size: "width (paint ell r ds img) = width img \<and> height (paint ell r ds img) = height img"
  by (induction ds arbitrary: img) (auto simp: paint_def draw_ellipse_def)

lemma in_bounds_draw: "in_bounds (draw_ellipse ell bx c img) q = in_bounds img q"
  by (simp add: in_bounds_def draw_ellipse_def)

lemma pixel_draw:
  "pixel (draw_ellipse ell bx c img) q = (if in_bounds img q \<and> ell bx q then c else pixel img q)"
  by (simp add: draw_ellipse_def)

lemma paint_pixel:
  "pixel (paint ell r ds img) q =
     (if in_bounds img q \<and> (\<exists>p \<in> set ds. ell (fst p - r, snd p - r, fst p + r, snd p + r) q)
      then red else pixel img q)"
proof (induction ds arbitrary: img)
  case Nil
  then show ?case by (simp add: paint_def)
next
  case (Cons p ds)
  obtain x y where p: "p = (x, y)" by (cases p)
  have "paint ell r (p # ds) img = paint ell r ds (draw_ellipse ell (x - r, y - r, x + r, y + r) red img)"
    by (simp add: paint_def p)
  then show ?case
    by (auto simp: Cons.IH in_bounds_draw pixel_draw p)
qed

lemma composite_pixel:
  "pixel (composite ell ds None dot_size base) q =
     (if in_bounds base q \<and> (\<exists>p \<in> set ds. ell (dot_box (dot_size div 2) p) q)
      then red else pixel base q)"
  by (simp add: composite_def paint_pixel dot_box_def)

lemma composite_size:
  "width (composite ell ds None dot_size base) = width base
   \<and> height (composite ell ds None dot_size base) = height base"
  by (simp add: composite_def paint_size)

text \<open>Whatever the outcome, drawing assigns to none of the session lists.\<close>

lemma ellipse_frame:
  "ellipse ell a bx c st = Inr st' \<Longrightarrow>
   base_image st' = base_image st \<and> dots st' = dots st \<and> entries st' = entries st"
  by (cases bx) (auto simp: ellipse_def split: if_splits)

lemma draw_dots_frame:
  "draw_dots ell a r ds st = Inr st' \<Longrightarrow>
   base_image st' = base_image st \<and> dots st' = dots st \<and> entries st' = entries st"
proof (induction ds arbitrary: st)
  case Nil
  then show ?case by simp
next
  case (Cons p ds)
  obtain x y where p: "p = (x, y)" by (cases p)
  from Cons.prems obtain st1 where
    e: "ellipse ell a (x - r, y - r, x + r, y + r) red st = Inr st1" and
    d: "draw_dots ell a r ds st1 = Inr st'"
    by (auto simp: p split: sum.splits)
  from Cons.IH[OF d] ellipse_frame[OF e] show ?case by simp
qed

lemma get_image_with_dots_frame:
  assumes "get_image_with_dots ell ds current_dot dot_size st = Inr (img, st')"
  shows "base_image st' = base_image st \<and> dots st' = dots st \<and> entries st' = entries st"
proof -
  from assms obtain b where b: "base_image st = Some b"
    by (auto simp: get_image_with_dots_def split: option.splits)
  let ?st1 = "st\<lparr>images := images st @ [images st ! b]\<rparr>"
  from assms b obtain st2 where
    d: "draw_dots ell (length (images st)) (dot_size div 2) ds ?st1 = Inr st2"
    by (auto simp: get_image_with_dots_def image_copy_def Let_def split: sum.splits)
  have f2: "base_image st2 = base_image st \<and> dots st2 = dots st \<and> entries st2 = entries st"
    using draw_dots_frame[OF d] by simp
  show ?thesis
  proof (cases current_dot)
    case None
    with assms b d have "st' = st2"
      by (auto simp: get_image_with_dots_def image_copy_def Let_def)
    with f2 show ?thesis by simp
  next
    case (Some c)
    obtain cx cy where c: "c = (cx, cy)" by (cases c)
    from assms b d Some c have
      "ellipse ell (length (images st)) (cx - dot_size div 2, cy - dot_size div 2, cx + dot_size div 2, cy + dot_size div 2) blue st2 = Inr st'"
      by (auto simp: get_image_with_dots_def image_copy_def Let_def split: sum.splits)
    from ellipse_frame[OF this] f2 show ?thesis by simp
  qed
qed

section \<open>The worked session, evaluated\<close>

lemma blank_session_eq:
  "blank_session =
     \<lparr>images = [image_new 500 800 white], base_image = Some 0, dots = [], entries = []\<rparr>"
  by (simp add: blank_session_def start_session_def)

lemma scar_session_eq:
  "scar_session =
     \<lparr>images = [image_new 500 800 white], base_image = Some 0,
      dots = [(10, 10), (20, 20)], entries = []\<rparr>"
  by (simp add: scar_session_def blank_session_def start_session_def add_dot_def)

lemma gallery_session_eq:
  "gallery_session =
     \<lparr>images = [image_new 500 800 white], base_image = Some 0,
      dots = [(10, 10), (20, 20)],
      entries =
       [(''2024-05-01 09:30:00'', ''Scar'', [137, 80, 78, 71, 13, 10, 26, 10], 6),
        (''2024-05-01 09:31:00'', ''Bruise'', [137, 80, 78, 71, 13, 10, 26, 10], 10),
        (''2024-05-01 09:32:00'', ''Mole'', [137, 80, 78, 71, 13, 10, 26, 10], 2)]\<rparr>"
  by (simp add: gallery_session_def scar_session_eq)

lemma corrupted_session_eq:
  "corrupted_session =
     \<lparr>images = [image_new 500 800 white], base_image = None,
      dots = [(10, 10), (20, 20)], entries = []\<rparr>"
proof -
  have c: "body_images [''notes.txt'', ''Body.PNG''] = [''Body.PNG'']"
    by code_simp
  show ?thesis
    by (simp add: corrupted_session_def reload_base_image_def load_body_image_def c
          unreadable_def scar_session_eq)
qed

section \<open>Marker Store: saving\<close>

text \<open>
  With a label that is not empty, a pending list that is not empty, a loaded base image
  and a dot size that is not negative, Save Entry succeeds: it appends exactly one entry
  to the end of the entry list, made of the clock reading, the label, the PNG encoding of
  the rendered image, and the dot size; the entry list is longer by one and the pending
  list is empty afterwards. The rendered image has the size of the base image, and a pixel
  of it is red exactly where it lies inside the raster and is covered by the ellipse of
  some pending point, drawn in the box of half-side \<open>dot_size div 2\<close> around that point;
  every other pixel is the pixel of the base image. No preview point is drawn.
\<close>

lemma save_entry_appends:
  assumes "label \<noteq> []" and "dots st \<noteq> []" and "base_image st = Some b" and "0 \<le> dot_size"
  shows "\<exists>img st1 st'.
           get_image_with_dots ell (dots st) None dot_size st = Inr (img, st1)
         \<and> save_entry ell png date label dot_size st = Inr (Success ''Entry saved.'', st')
         \<and> entries st' = entries st @ [(date, label, png (images st1 ! img), dot_size)]
         \<and> width (images st1 ! img) = width (images st ! b)
         \<and> height (images st1 ! img) = height (images st ! b)
         \<and> (\<forall>q. pixel (images st1 ! img) q =
                  (if in_bounds (images st ! b) q
                      \<and> (\<exists>p \<in> set (dots st). ell (dot_box (dot_size div 2) p) q)
                   then red else pixel (images st ! b) q))
         \<and> length (entries st') = length (entries st) + 1
         \<and> dots st' = []"
proof -
  let ?img = "length (images st)"
  let ?out = "composite ell (dots st) None dot_size (images st ! b)"
  let ?st1 = "st\<lparr>images := images st @ [?out]\<rparr>"
  let ?st' = "?st1\<lparr>entries := entries ?st1 @ [(date, label, png (images ?st1 ! ?img), dot_size)],
                    dots := []\<rparr>"
  have g: "get_image_with_dots ell (dots st) None dot_size st = Inr (?img, ?st1)"
    using assms(3,4) by (rule get_image_with_dots_result)
  have s: "save_entry ell png date label dot_size st = Inr (Success ''Entry saved.'', ?st')"
    using assms(1,2) by (simp add: save_entry_def g)
  have o: "images ?st1 ! ?img = ?out" by simp
  have e: "entries ?st' = entries st @ [(date, label, png (images ?st1 ! ?img), dot_size)]"
    by simp
  have px: "\<forall>q. pixel (images ?st1 ! ?img) q =
                  (if in_bounds (images st ! b) q
                      \<and> (\<exists>p \<in> set (dots st). ell (dot_box (dot_size div 2) p) q)
                   then red else pixel (images st ! b) q)"
    unfolding o by (simp add: composite_pixel)
  have sz: "width (images ?st1 ! ?img) = width (images st ! b)"
    "height (images ?st1 ! ?img) = height (images st ! b)"
    unfolding o by (simp_all add: composite_size)
  have l: "length (entries ?st') = length (entries st) + 1" by simp
  have d: "dots ?st' = []" by simp
  show ?thesis
    by (intro exI[of _ ?img] exI[of _ ?st1] exI[of _ ?st'] conjI g s e px sz l d)
qed

text \<open>
  The example "add points (10,10) and (20,20), dot size 6, save as Scar": the stored bytes
  show the pixel \<open>(10, 10)\<close> red and the pixel \<open>(14, 10)\<close> white.
\<close>

lemma save_entry_appends_example:
  "\<exists>st'. save_entry inscribed_ellipse probe_png ''2024-05-01 09:30:00'' ''Scar'' 6 scar_session
            = Inr (Success ''Entry saved.'', st')
         \<and> entries st' =
             [(''2024-05-01 09:30:00'', ''Scar'',
               [137, 80, 78, 71, 13, 10, 26, 10, 255, 0, 0, 255, 255, 255, 255, 255], 6)]
         \<and> dots st' = []"
proof -
  have h1: "''Scar'' \<noteq> []" by simp
  have h2: "dots scar_session \<noteq> []" by (simp add: scar_session_eq)
  have h3: "base_image scar_session = Some 0" by (simp add: scar_session_eq)
  have h4: "(0::int) \<le> 6" by simp
  from save_entry_appends[OF h1 h2 h3 h4, where ell = inscribed_ellipse and png = probe_png
         and date = "''2024-05-01 09:30:00''"]
  obtain img and st1 :: app_state and st' where
    s: "save_entry inscribed_ellipse probe_png ''2024-05-01 09:30:00'' ''Scar'' 6 scar_session
          = Inr (Success ''Entry saved.'', st')" and
    e: "entries st' = entries scar_session
          @ [(''2024-05-01 09:30:00'', ''Scar'', probe_png (images st1 ! img), 6)]" and
    px: "\<forall>q. pixel (images st1 ! img) q =
                  (if in_bounds (images scar_session ! 0) q
                      \<and> (\<exists>p \<in> set (dots scar_session). inscribed_ellipse (dot_box (6 div 2) p) q)
                   then red else pixel (images scar_session ! 0) q)" and
    d: "dots st' = []"
    by blast
  have p1: "pixel (images st1 ! img) (10, 10) = red"
    by (simp add: px scar_session_eq in_bounds_def image_new_def dot_box_def
          inscribed_ellipse_def in_box_def)
  have p2: "pixel (images st1 ! img) (14, 10) = white"
    by (simp add: px scar_session_eq in_bounds_def image_new_def dot_box_def
          inscribed_ellipse_def in_box_def)
  have "probe_png (images st1 ! img)
          = [137, 80, 78, 71, 13, 10, 26, 10, 255, 0, 0, 255, 255, 255, 255, 255]"
    by (simp add: probe_png_def p1 p2 red_def white_def)
  with s e d show ?thesis by (simp add: scar_session_eq)
qed

text \<open>
  With no base image, the same save raises at \<^verbatim>\<open>base_image.copy()\<close>, before the entry is
  appended and before the pending list is reset.
\<close>

lemma save_entry_raises_without_base:
  "base_image st = None \<Longrightarrow> label \<noteq> [] \<Longrightarrow> dots st \<noteq> [] \<Longrightarrow>
   save_entry ell png date label dot_size st = Inl AttributeError
   \<and> perform ell png (SaveEntry date label dot_size) st = st"
  by (simp add: save_entry_def get_image_with_dots_def perform_def)

text \<open>
  Claim C1 asks, of every state with a label that is not empty and a pending list that
  is not empty, that Save Entry appends exactly one entry and resets the pending list.
  Evaluated on the worked session after a run in which the candidate file \<^verbatim>\<open>Body.PNG\<close>
  no longer decodes: the loader has returned \<^verbatim>\<open>None\<close> (the defect shown under claim C3),
  the two pending points are still there, and saving them as "Scar" raises
  \<^verbatim>\<open>AttributeError\<close>; the entry list stays empty.
\<close>

theorem save_entry_after_failed_reload:
  "base_image corrupted_session = None
   \<and> dots corrupted_session = [(10, 10), (20, 20)]
   \<and> save_entry inscribed_ellipse png_signature ''2024-05-01 09:30:00'' ''Scar'' 6
        corrupted_session = Inl AttributeError
   \<and> entries (perform inscribed_ellipse png_signature
                (SaveEntry ''2024-05-01 09:30:00'' ''Scar'' 6) corrupted_session) = []"
  by (simp add: corrupted_session_eq save_entry_def get_image_with_dots_def perform_def)

text \<open>
  Claim C2. With an empty label or an empty pending list, Save Entry shows the warning
  and returns the state it was given: the entry list, the pending list and the image
  store are exactly as before.
\<close>

theorem save_entry_rejected:
  "label = [] \<or> dots st = [] \<Longrightarrow>
   save_entry ell png date label dot_size st =
     Inr (Warning ''Please add at least one dot and a label.'', st)"
  by (auto simp: save_entry_def)

theorem save_entry_rejected_witness:
  "(''Scar'' = [] \<or> dots blank_session = [])
   \<and> save_entry inscribed_ellipse png_signature ''2024-05-01 09:30:00'' ''Scar'' 6 blank_session
       = Inr (Warning ''Please add at least one dot and a label.'', blank_session)"
proof -
  have h: "''Scar'' = [] \<or> dots blank_session = []" by (simp add: blank_session_eq)
  from save_entry_rejected[OF h] h show ?thesis by blast
qed

section \<open>Image Loader: the fallback\<close>

text \<open>
  Where no file qualifies, the loader warns and returns the blank white canvas of 500 by
  800 pixels. Where the first candidate fails to decode, it reports the error and returns
  \<^verbatim>\<open>None\<close>, not a canvas.
\<close>

lemma load_body_image_no_candidate:
  "body_images listing = [] \<Longrightarrow>
   load_body_image listing open_rgba =
     ([Warning ''No body outline image found. Using a blank placeholder.''],
      Some (image_new 500 800 white))"
  by (simp add: load_body_image_def)

lemma load_body_image_decode_failure:
  "body_images listing \<noteq> [] \<Longrightarrow> open_rgba (hd (body_images listing)) = Inl e \<Longrightarrow>
   snd (load_body_image listing open_rgba) = None"
  by (simp add: load_body_image_def)

text \<open>
  Claim C3, evaluated on a directory whose only candidate, \<^verbatim>\<open>Body.PNG\<close>, does not
  decode: the loader reports the error and returns \<^verbatim>\<open>None\<close>, and the next statement
  that reads the width of the base image raises \<^verbatim>\<open>AttributeError\<close>. The claim expects the
  blank canvas of 500 by 800 pixels and a run that goes on.
\<close>

theorem load_body_image_undecodable:
  "load_body_image [''notes.txt'', ''Body.PNG''] unreadable =
     ([Error ''Error loading image 'Body.PNG': cannot identify image file''], None)
   \<and> has_positive_width (snd (load_body_image [''notes.txt'', ''Body.PNG''] unreadable))
       = Inl AttributeError"
proof -
  have c: "body_images [''notes.txt'', ''Body.PNG''] = [''Body.PNG'']"
    by code_simp
  show ?thesis
    by (simp add: load_body_image_def c unreadable_def has_positive_width_def)
qed

section \<open>Renderer: where the dots are\<close>

text \<open>
  Claim C4, as amended. The dot size is a diameter: the ellipse of a pending point
  \<open>(x, y)\<close> is drawn in the box from \<open>(x - r, y - r)\<close> to \<open>(x + r, y + r)\<close> with
  \<open>r = dot_size div 2\<close>. With a loaded base image and a dot size that is not negative,
  rendering without a preview point succeeds and returns an image of the size of the base
  image in which a pixel is red exactly where it lies inside the raster and the ellipse
  drawn in the box of some pending point covers it, and is the pixel of the base image
  everywhere else. Where the library covers, for these boxes, no raster pixel outside
  the box and covers each pending point that lies inside the raster, the pixel of every
  such point is red, and every pixel that differs from the base image lies within
  \<open>dot_size div 2\<close> of some pending point in both coordinates, hence within distance
  \<open>dot_size\<close> of it.
\<close>

theorem get_image_with_dots_marks:
  assumes base: "base_image st = Some b"
      and size: "0 \<le> dot_size"
      and inside: "\<forall>p \<in> set ds. \<forall>q. in_bounds (images st ! b) q
                     \<and> ell (dot_box (dot_size div 2) p) q
                     \<longrightarrow> in_box (dot_box (dot_size div 2) p) q"
      and centre: "\<forall>p \<in> set ds. in_bounds (images st ! b) p
                     \<longrightarrow> ell (dot_box (dot_size div 2) p) p"
  shows "\<exists>img st'.
           get_image_with_dots ell ds None dot_size st = Inr (img, st')
         \<and> width (images st' ! img) = width (images st ! b)
         \<and> height (images st' ! img) = height (images st ! b)
         \<and> (\<forall>q. pixel (images st' ! img) q =
                  (if in_bounds (images st ! b) q
                      \<and> (\<exists>p \<in> set ds. ell (dot_box (dot_size div 2) p) q)
                   then red else pixel (images st ! b) q))
         \<and> (\<forall>p \<in> set ds. in_bounds (images st ! b) p \<longrightarrow> pixel (images st' ! img) p = red)
         \<and> (\<forall>q. pixel (images st' ! img) q \<noteq> pixel (images st ! b) q \<longrightarrow>
               (\<exists>p \<in> set ds. \<bar>fst q - fst p\<bar> \<le> dot_size div 2
                            \<and> \<bar>snd q - snd p\<bar> \<le> dot_size div 2
                            \<and> (fst q - fst p)\<^sup>2 + (snd q - snd p)\<^sup>2 \<le> dot_size\<^sup>2))"
proof -
  let ?r = "dot_size div 2"
  let ?base = "images st ! b"
  let ?out = "composite ell ds None dot_size ?base"
  let ?st' = "st\<lparr>images := images st @ [?out]\<rparr>"
  have g: "get_image_with_dots ell ds None dot_size st = Inr (length (images st), ?st')"
    using base size by (rule get_image_with_dots_result)
  have o: "images ?st' ! length (images st) = ?out" by simp
  have r: "0 \<le> ?r" using size by simp
  have exact: "\<forall>q. pixel ?out q =
                  (if in_bounds ?base q \<and> (\<exists>p \<in> set ds. ell (dot_box ?r p) q)
                   then red else pixel ?base q)"
    by (simp add: composite_pixel)
  have hit: "\<forall>p \<in> set ds. in_bounds ?base p \<longrightarrow> pixel ?out p = red"
  proof (intro ballI impI)
    fix p assume p: "p \<in> set ds" "in_bounds ?base p"
    with centre have "ell (dot_box ?r p) p" by blast
    with p have "in_bounds ?base p \<and> (\<exists>p' \<in> set ds. ell (dot_box ?r p') p)" by blast
    then show "pixel ?out p = red" by (simp add: composite_pixel)
  qed
  have near: "\<forall>q. pixel ?out q \<noteq> pixel ?base q \<longrightarrow>
               (\<exists>p \<in> set ds. \<bar>fst q - fst p\<bar> \<le> ?r \<and> \<bar>snd q - snd p\<bar> \<le> ?r
                            \<and> (fst q - fst p)\<^sup>2 + (snd q - snd p)\<^sup>2 \<le> dot_size\<^sup>2)"
  proof (intro allI impI)
    fix q assume "pixel ?out q \<noteq> pixel ?base q"
    then have "in_bounds ?base q \<and> (\<exists>p \<in> set ds. ell (dot_box ?r p) q)"
      by (simp add: composite_pixel split: if_splits)
    then obtain p where p: "p \<in> set ds" and ib: "in_bounds ?base q"
      and e: "ell (dot_box ?r p) q"
      by blast
    from inside p ib e have "in_box (dot_box ?r p) q" by blast
    then have ax: "\<bar>fst q - fst p\<bar> \<le> ?r" and ay: "\<bar>snd q - snd p\<bar> \<le> ?r"
      by (auto simp: in_box_def dot_box_def)
    have x2: "(fst q - fst p)\<^sup>2 \<le> ?r\<^sup>2" using ax r by (simp add: abs_le_square_iff[symmetric])
    have y2: "(snd q - snd p)\<^sup>2 \<le> ?r\<^sup>2" using ay r by (simp add: abs_le_square_iff[symmetric])
    have "2 * ?r \<le> dot_size" by simp
    then have "(2 * ?r)\<^sup>2 \<le> dot_size\<^sup>2" using r by (intro power_mono) simp_all
    then have "4 * ?r\<^sup>2 \<le> dot_size\<^sup>2" by (simp add: power2_eq_square)
    moreover have "0 \<le> ?r\<^sup>2" by simp
    ultimately have "2 * ?r\<^sup>2 \<le> dot_size\<^sup>2" by linarith
    with x2 y2 have "(fst q - fst p)\<^sup>2 + (snd q - snd p)\<^sup>2 \<le> dot_size\<^sup>2" by linarith
    with p ax ay show "\<exists>p \<in> set ds. \<bar>fst q - fst p\<bar> \<le> ?r \<and> \<bar>snd q - snd p\<bar> \<le> ?r
                            \<and> (fst q - fst p)\<^sup>2 + (snd q - snd p)\<^sup>2 \<le> dot_size\<^sup>2" by blast
  qed
  have sz: "width ?out = width ?base" "height ?out = height ?base"
    by (simp_all add: composite_size)
  let ?res = "images ?st' ! length (images st)"
  have exact': "\<forall>q. pixel ?res q =
                  (if in_bounds ?base q \<and> (\<exists>p \<in> set ds. ell (dot_box ?r p) q)
                   then red else pixel ?base q)"
    unfolding o by (rule exact)
  have hit': "\<forall>p \<in> set ds. in_bounds ?base p \<longrightarrow> pixel ?res p = red"
    unfolding o by (rule hit)
  have near': "\<forall>q. pixel ?res q \<noteq> pixel ?base q \<longrightarrow>
               (\<exists>p \<in> set ds. \<bar>fst q - fst p\<bar> \<le> ?r \<and> \<bar>snd q - snd p\<bar> \<le> ?r
                            \<and> (fst q - fst p)\<^sup>2 + (snd q - snd p)\<^sup>2 \<le> dot_size\<^sup>2)"
    unfolding o by (rule near)
  have sz': "width ?res = width ?base" "height ?res = height ?base"
    unfolding o by (rule sz)+
  show ?thesis
    by (intro exI[of _ "length (images st)"] exI[of _ ?st'] conjI g sz' exact' hit' near')
qed

theorem get_image_with_dots_marks_witness:
  "base_image scar_session = Some 0 \<and> (0::int) \<le> 6
   \<and> rendered_pixel
        (get_image_with_dots inscribed_ellipse (dots scar_session) None 6 scar_session) (10, 10)
       = Inr red
   \<and> rendered_pixel
        (get_image_with_dots inscribed_ellipse (dots scar_session) None 6 scar_session) (13, 10)
       = Inr red
   \<and> rendered_pixel
        (get_image_with_dots inscribed_ellipse (dots scar_session) None 6 scar_session) (20, 17)
       = Inr red
   \<and> rendered_pixel
        (get_image_with_dots inscribed_ellipse (dots scar_session) None 6 scar_session) (14, 10)
       = Inr white
   \<and> rendered_pixel
        (get_image_with_dots inscribed_ellipse (dots scar_session) None 6 scar_session) (20, 24)
       = Inr white"
proof -
  have h1: "base_image scar_session = Some 0" by (simp add: scar_session_eq)
  have h2: "(0::int) \<le> 6" by simp
  have h3: "\<forall>p \<in> set (dots scar_session). \<forall>q. in_bounds (images scar_session ! 0) q
               \<and> inscribed_ellipse (dot_box (6 div 2) p) q
               \<longrightarrow> in_box (dot_box (6 div 2) p) q"
    by (auto simp: inscribed_ellipse_def dot_box_def)
  have h4: "\<forall>p \<in> set (dots scar_session). in_bounds (images scar_session ! 0) p
               \<longrightarrow> inscribed_ellipse (dot_box (6 div 2) p) p"
    by (simp add: scar_session_eq inscribed_ellipse_def dot_box_def in_box_def)
  from get_image_with_dots_marks[OF h1 h2 h3 h4]
  obtain img st' where
    g: "get_image_with_dots inscribed_ellipse (dots scar_session) None 6 scar_session
          = Inr (img, st')" and
    px: "\<forall>q. pixel (images st' ! img) q =
                  (if in_bounds (images scar_session ! 0) q
                      \<and> (\<exists>p \<in> set (dots scar_session). inscribed_ellipse (dot_box (6 div 2) p) q)
                   then red else pixel (images scar_session ! 0) q)"
    by blast
  have "pixel (images st' ! img) (10, 10) = red" "pixel (images st' ! img) (13, 10) = red"
    "pixel (images st' ! img) (20, 17) = red"
    "pixel (images st' ! img) (14, 10) = white" "pixel (images st' ! img) (20, 24) = white"
    by (simp_all add: px scar_session_eq in_bounds_def image_new_def dot_box_def
          inscribed_ellipse_def in_box_def)
  then show ?thesis using h1 by (simp add: g rendered_pixel_def)
qed

text \<open>
  Claim C4 as it was stated asks for a filled circle of radius \<open>dot_size\<close>. On the blank
  canvas with one pending point at \<open>(10, 10)\<close> and dot size 6, the pixel \<open>(14, 10)\<close> lies
  at distance 4 from the point, inside that circle, and is still white after rendering:
  the circle drawn has radius 3.
\<close>

theorem filled_circle_radius_counterexample:
  "(14 - 10)\<^sup>2 + (10 - 10)\<^sup>2 \<le> (6::int)\<^sup>2
   \<and> rendered_pixel (get_image_with_dots inscribed_ellipse [(10, 10)] None 6 blank_session)
        (14, 10) = Inr white
   \<and> white \<noteq> red"
  by (simp add: get_image_with_dots_result[where b = 0] blank_session_eq rendered_pixel_def
        composite_def paint_def draw_ellipse_def in_bounds_def inscribed_ellipse_def in_box_def
        image_new_def white_def red_def)

section \<open>Marker Store: pending points\<close>

text \<open>
  Claim C5. Add Dot followed by Undo Last Dot gives back the state before the point was
  added, so the pending list is the one before the add; and Undo Last Dot on an empty
  pending list changes nothing.
\<close>

theorem undo_after_add:
  "undo_last_dot (add_dot x y st) = st
   \<and> dots (undo_last_dot (add_dot x y st)) = dots st
   \<and> undo_last_dot (st\<lparr>dots := []\<rparr>) = st\<lparr>dots := []\<rparr>"
  by (simp add: undo_last_dot_def add_dot_def)

theorem undo_after_add_witness:
  "undo_last_dot (add_dot 30 40 scar_session) = scar_session
   \<and> dots (undo_last_dot (add_dot 30 40 scar_session)) = [(10, 10), (20, 20)]"
  using undo_after_add[of 30 40 scar_session] by (simp add: scar_session_eq)

section \<open>Marker Store: deleting\<close>

text \<open>
  Claim C6. For an index \<open>i\<close> with \<open>0 \<le> i < length entries\<close>, Delete succeeds and removes
  exactly the entry at position \<open>i\<close>: the entry list is shorter by one, it is the entries
  before \<open>i\<close> followed by the entries after \<open>i\<close> in their order, the entries before \<open>i\<close>
  keep their index and every entry after \<open>i\<close> moves down by one.
\<close>

theorem delete_entry_removes:
  assumes "0 \<le> i" and "i < int (length (entries st))"
  shows "\<exists>st'. delete_entry i st = Inr st'
           \<and> length (entries st') + 1 = length (entries st)
           \<and> entries st' = take (nat i) (entries st) @ drop (Suc (nat i)) (entries st)
           \<and> (\<forall>j < nat i. entries st' ! j = entries st ! j)
           \<and> (\<forall>j. nat i \<le> j \<and> j < length (entries st') \<longrightarrow> entries st' ! j = entries st ! Suc j)"
proof -
  let ?k = "nat i"
  let ?es = "take ?k (entries st) @ drop (Suc ?k) (entries st)"
  have k: "?k < length (entries st)" using assms by simp
  have d: "delete_entry i st = Inr (st\<lparr>entries := ?es\<rparr>)"
    using assms by (simp add: delete_entry_def list_pop_def Let_def)
  have l: "length ?es + 1 = length (entries st)" using k by simp
  have lo: "\<forall>j < ?k. ?es ! j = entries st ! j"
    using k by (simp add: nth_append)
  have hi: "\<forall>j. ?k \<le> j \<and> j < length ?es \<longrightarrow> ?es ! j = entries st ! Suc j"
    using k by (auto simp: nth_append min_def)
  show ?thesis using d l lo hi by simp
qed

theorem delete_entry_removes_witness:
  "(0::int) \<le> 1 \<and> (1::int) < int (length (entries gallery_session))
   \<and> (\<exists>st'. delete_entry 1 gallery_session = Inr st'
            \<and> length (entries st') + 1 = 3
            \<and> entries st' =
                [(''2024-05-01 09:30:00'', ''Scar'', [137, 80, 78, 71, 13, 10, 26, 10], 6),
                 (''2024-05-01 09:32:00'', ''Mole'', [137, 80, 78, 71, 13, 10, 26, 10], 2)])"
proof -
  have h1: "(0::int) \<le> 1" by simp
  have h2: "(1::int) < int (length (entries gallery_session))" by (simp add: gallery_session_eq)
  from delete_entry_removes[OF h1 h2]
  show ?thesis using h2 by (auto simp: gallery_session_eq)
qed

section \<open>Entry Exporter\<close>

text \<open>
  Claim C7. Prepare CSV writes the header row Date, Label, Dot Size and then one row per
  entry, in the order of the entry list, holding the date, the label and the dot size of
  that entry and nothing else.
\<close>

theorem prepare_csv_rows:
  "prepare_csv es =
     [Text ''Date'', Text ''Label'', Text ''Dot Size'']
       # map (\<lambda>(date, label, _, size). [Text date, Text label, Number size]) es"
proof -
  have "fold (\<lambda>(date, label, _, size). writerow [Text date, Text label, Number size]) es acc
          = acc @ map (\<lambda>(date, label, _, size). [Text date, Text label, Number size]) es" for acc
    by (induction es arbitrary: acc) (auto simp: writerow_def)
  then show ?thesis by (simp add: prepare_csv_def writerow_def)
qed

theorem prepare_csv_rows_witness:
  "prepare_csv (entries gallery_session) =
     [[Text ''Date'', Text ''Label'', Text ''Dot Size''],
      [Text ''2024-05-01 09:30:00'', Text ''Scar'', Number 6],
      [Text ''2024-05-01 09:31:00'', Text ''Bruise'', Number 10],
      [Text ''2024-05-01 09:32:00'', Text ''Mole'', Number 2]]"
  using prepare_csv_rows[of "entries gallery_session"] by (simp add: gallery_session_eq)

section \<open>Renderer: no side effect\<close>

text \<open>
  Claim C8. With a loaded base image and a dot size that is not negative, rendering
  succeeds and returns a new image object, at an address that was not in use. Every image
  object that existed before, the base image among them, has the contents it had; the
  global \<^verbatim>\<open>base_image\<close>, the pending list and the entry list are unchanged, also when a
  preview point is drawn. The contents of the returned image depend only on the contents
  of the base image, the points, the preview point and the dot size: rendering the same
  inputs in any other state gives an image with the same contents.
\<close>

theorem get_image_with_dots_pure:
  assumes "base_image st = Some b" and "b < length (images st)" and "0 \<le> dot_size"
  shows "\<exists>img st'.
           get_image_with_dots ell ds current_dot dot_size st = Inr (img, st')
         \<and> img = length (images st)
         \<and> take (length (images st)) (images st') = images st
         \<and> images st' ! b = images st ! b
         \<and> base_image st' = base_image st \<and> dots st' = dots st \<and> entries st' = entries st
         \<and> (\<forall>st2 b2. base_image st2 = Some b2 \<and> images st2 ! b2 = images st ! b \<longrightarrow>
               (\<exists>img2 st2'. get_image_with_dots ell ds current_dot dot_size st2 = Inr (img2, st2')
                            \<and> images st2' ! img2 = images st' ! img))"
proof -
  let ?img = "length (images st)"
  let ?out = "composite ell ds current_dot dot_size (images st ! b)"
  let ?st' = "st\<lparr>images := images st @ [?out]\<rparr>"
  have g: "get_image_with_dots ell ds current_dot dot_size st = Inr (?img, ?st')"
    using assms(1,3) by (rule get_image_with_dots_result)
  have b: "images ?st' ! b = images st ! b"
    using assms(2) by (simp add: nth_append)
  have det: "\<exists>img2 st2'. get_image_with_dots ell ds current_dot dot_size st2 = Inr (img2, st2')
                \<and> images st2' ! img2 = images ?st' ! ?img"
    if "base_image st2 = Some b2 \<and> images st2 ! b2 = images st ! b" for st2 b2
  proof -
    from that assms(3) have
      "get_image_with_dots ell ds current_dot dot_size st2 =
         Inr (length (images st2), st2\<lparr>images := images st2 @ [?out]\<rparr>)"
      using get_image_with_dots_result[of st2 b2 dot_size ell ds current_dot] by simp
    then show ?thesis by simp
  qed
  show ?thesis using g b det by auto
qed

theorem get_image_with_dots_pure_witness:
  "base_image scar_session = Some 0 \<and> 0 < length (images scar_session) \<and> (0::int) \<le> 6
   \<and> (\<exists>img st'. get_image_with_dots inscribed_ellipse (dots scar_session) (Some (30, 40)) 6
                    scar_session = Inr (img, st')
               \<and> img = 1
               \<and> images st' ! 0 = image_new 500 800 white
               \<and> dots st' = [(10, 10), (20, 20)]
               \<and> entries st' = [])"
proof -
  have h1: "base_image scar_session = Some 0" by (simp add: scar_session_eq)
  have h2: "0 < length (images scar_session)" by (simp add: scar_session_eq)
  have h3: "(0::int) \<le> 6" by simp
  from get_image_with_dots_pure[OF h1 h2 h3, where ell = inscribed_ellipse
         and ds = "dots scar_session" and current_dot = "Some (30, 40)"]
  obtain img st' where
    "get_image_with_dots inscribed_ellipse (dots scar_session) (Some (30, 40)) 6 scar_session
       = Inr (img, st')"
    "img = length (images scar_session)"
    "images st' ! 0 = images scar_session ! 0"
    "dots st' = dots scar_session" "entries st' = entries scar_session"
    by blast
  then show ?thesis using h1 h2 by (auto simp: scar_session_eq)
qed

section \<open>Marker Store: labels of saved entries\<close>

lemma save_entry_labels:
  assumes "save_entry ell png date label dot_size st = Inr (m, st')"
      and "\<forall>e \<in> set (entries st). fst (snd e) \<noteq> []"
  shows "\<forall>e \<in> set (entries st'). fst (snd e) \<noteq> []"
proof (cases "label \<noteq> [] \<and> dots st \<noteq> []")
  case True
  with assms(1) obtain img st1 where
    g: "get_image_with_dots ell (dots st) None dot_size st = Inr (img, st1)" and
    s: "st' = st1\<lparr>entries := entries st1 @ [(date, label, png (images st1 ! img), dot_size)], dots := []\<rparr>"
    by (auto simp: save_entry_def Let_def split: sum.splits)
  from get_image_with_dots_frame[OF g] have "entries st1 = entries st" by simp
  with s assms(2) True show ?thesis by auto
next
  case False
  with assms(1) have "st' = st" by (auto simp: save_entry_def)
  with assms(2) show ?thesis by simp
qed

lemma list_pop_subset: "list_pop xs i = Inr (x, rest) \<Longrightarrow> set rest \<subseteq> set xs"
  by (auto simp: list_pop_def Let_def split: if_splits dest: in_set_takeD in_set_dropD)

lemma perform_labels:
  assumes "\<forall>e \<in> set (entries st). fst (snd e) \<noteq> []"
  shows "\<forall>e \<in> set (entries (perform ell png op st)). fst (snd e) \<noteq> []"
proof (cases op)
  case (AddPendingPoint x y)
  with assms show ?thesis by (simp add: perform_def add_dot_def)
next
  case UndoLastPoint
  with assms show ?thesis by (simp add: perform_def undo_last_dot_def)
next
  case ClearPending
  with assms show ?thesis by (simp add: perform_def clear_all_dots_def)
next
  case (SaveEntry date label dot_size)
  show ?thesis
  proof (cases "save_entry ell png date label dot_size st")
    case (Inl e)
    with assms SaveEntry show ?thesis by (simp add: perform_def)
  next
    case (Inr res)
    obtain m st' where "res = (m, st')" by (cases res)
    with Inr SaveEntry save_entry_labels[OF _ assms, of ell png date label dot_size m st']
    show ?thesis by (simp add: perform_def)
  qed
next
  case (DeleteEntry i)
  show ?thesis
  proof (cases "list_pop (entries st) i")
    case (Inl e)
    with assms DeleteEntry show ?thesis by (simp add: perform_def delete_entry_def)
  next
    case (Inr res)
    obtain x rest where r: "res = (x, rest)" by (cases res)
    with Inr list_pop_subset have "set rest \<subseteq> set (entries st)" by fastforce
    with assms Inr r DeleteEntry show ?thesis
      by (auto simp: perform_def delete_entry_def)
  qed
qed

lemma fold_perform_labels:
  "\<forall>e \<in> set (entries st). fst (snd e) \<noteq> [] \<Longrightarrow>
   \<forall>e \<in> set (entries (fold (perform ell png) ops st)). fst (snd e) \<noteq> []"
proof (induction ops arbitrary: st)
  case Nil
  then show ?case by simp
next
  case (Cons op ops)
  have "\<forall>e \<in> set (entries (perform ell png op st)). fst (snd e) \<noteq> []"
    by (rule perform_labels[OF Cons.prems])
  from Cons.IH[OF this] show ?case by simp
qed

text \<open>
  Claim C9. After any sequence of store operations, run from the start of a session, every
  entry of the entry list has a label that is not empty.
\<close>

theorem entries_labels_nonempty:
  "\<forall>e \<in> set (entries (run_operations ell png ops (start_session loaded))). fst (snd e) \<noteq> []"
proof -
  have "\<forall>e \<in> set (entries (start_session loaded)). fst (snd e) \<noteq> []"
    by (simp add: start_session_def split: option.splits)
  from fold_perform_labels[OF this] show ?thesis by (simp add: run_operations_def)
qed

theorem entries_labels_nonempty_witness:
  "(''2024-05-01 09:30:00'', ''Scar'', [137, 80, 78, 71, 13, 10, 26, 10], 6)
     \<in> set (entries (run_operations inscribed_ellipse png_signature
                       [AddPendingPoint 10 10, AddPendingPoint 20 20,
                        SaveEntry ''2024-05-01 09:30:00'' ''Scar'' 6, UndoLastPoint]
                       (start_session (Some (image_new 500 800 white)))))
   \<and> fst (snd (''2024-05-01 09:30:00'', ''Scar'', [137 :: byte, 80, 78, 71, 13, 10, 26, 10], 6 :: int))
       \<noteq> []"
proof -
  let ?e = "(''2024-05-01 09:30:00'', ''Scar'', [137 :: byte, 80, 78, 71, 13, 10, 26, 10], 6 :: int)"
  let ?run = "run_operations inscribed_ellipse png_signature
                [AddPendingPoint 10 10, AddPendingPoint 20 20,
                 SaveEntry ''2024-05-01 09:30:00'' ''Scar'' 6, UndoLastPoint]
                (start_session (Some (image_new 500 800 white)))"
  have m: "?e \<in> set (entries ?run)"
    by (simp add: run_operations_def perform_def start_session_def add_dot_def undo_last_dot_def
          save_entry_def get_image_with_dots_result[where b = 0] png_signature_def)
  with entries_labels_nonempty[of inscribed_ellipse png_signature
         "[AddPendingPoint 10 10, AddPendingPoint 20 20,
           SaveEntry ''2024-05-01 09:30:00'' ''Scar'' 6, UndoLastPoint]"
         "Some (image_new 500 800 white)"]
  have "fst (snd ?e) \<noteq> []" by blast
  with m show ?thesis by blast
qed

section \<open>Marker Store: each operation keeps to its own list\<close>

text \<open>
  Claim C10. Add Dot, Undo Last Dot and Clear All Dots leave the entry list as it is,
  stored bytes included, and a Delete that succeeds leaves the pending list as it is.
\<close>

theorem operations_frame:
  "entries (add_dot x y st) = entries st
   \<and> entries (undo_last_dot st) = entries st
   \<and> entries (clear_all_dots st) = entries st
   \<and> (\<forall>st'. delete_entry i st = Inr st' \<longrightarrow> dots st' = dots st)"
  by (auto simp: add_dot_def undo_last_dot_def clear_all_dots_def delete_entry_def
           split: sum.splits)

theorem operations_frame_witness:
  "\<exists>st'. delete_entry 0 gallery_session = Inr st' \<and> dots st' = [(10, 10), (20, 20)]"
proof -
  have "\<exists>st'. delete_entry 0 gallery_session = Inr st'"
    by (simp add: delete_entry_def list_pop_def gallery_session_eq)
  then obtain st' where d: "delete_entry 0 gallery_session = Inr st'" by blast
  with operations_frame[of 0 0 gallery_session 0] have "dots st' = dots gallery_session" by blast
  with d show ?thesis by (auto simp: gallery_session_eq)
qed

end
